theory Spec2Isabelle
  imports Complex_Main "HOL-Library.Multiset"
begin

section \<open>genpass.py: the password generator\<close>

text \<open>
  A shallow embedding of \<^verbatim>\<open>calculate_entropy\<close> and \<^verbatim>\<open>generate_password\<close> of
  \<^verbatim>\<open>src/genpass.py\<close>. Python strings are \<open>string\<close> (all pool constants are ASCII; a
  character of a custom pool is one \<open>char\<close>, and no property depends on the alphabet),
  the \<^verbatim>\<open>length\<close> argument is an unbounded \<open>int\<close>, every \<^verbatim>\<open>raise\<close> is a value of
  type \<open>error\<close>, and the secure random source is an explicit state threaded through every
  draw. The value of \<^verbatim>\<open>math.log2\<close> is the real logarithm to base 2: the rounding of
  Python's floats is not part of the model.
\<close>

subsection \<open>Configuration constants (lines 23-31)\<close>

definition MIN_LENGTH :: int where
  "MIN_LENGTH = 8"

definition MAX_LENGTH :: int where
  "MAX_LENGTH = 128"

definition DEFAULT_LENGTH :: int where
  "DEFAULT_LENGTH = 20"

text \<open>\<^verbatim>\<open>string.ascii_lowercase\<close>, \<^verbatim>\<open>string.ascii_uppercase\<close>, \<^verbatim>\<open>string.digits\<close>.\<close>

definition CHARS_LOWER :: string where
  "CHARS_LOWER = ''abcdefghijklmnopqrstuvwxyz''"

definition CHARS_UPPER :: string where
  "CHARS_UPPER = ''ABCDEFGHIJKLMNOPQRSTUVWXYZ''"

definition CHARS_DIGITS :: string where
  "CHARS_DIGITS = ''0123456789''"

text \<open>
  \<^verbatim>\<open>string.punctuation\<close>: the 32 ASCII punctuation characters in code order. The double
  quote (0x22), the single quote (0x27) and the backslash (0x5C) are written by code.
\<close>

definition CHARS_SYMBOLS :: string where
  "CHARS_SYMBOLS =
     ''!'' @ [CHR 0x22] @ ''#$%&'' @ [CHR 0x27] @ ''()*+,-./:;<=>?@['' @ [CHR 0x5C] @ '']^_`{|}~''"

definition CHARS_SYMBOLS_SAFE :: string where
  "CHARS_SYMBOLS_SAFE = ''!#%&()*+,-./:;=?@[]^{}~_''"

subsection \<open>Errors\<close>

text \<open>
  The four \<^verbatim>\<open>ValueError\<close>s of \<^verbatim>\<open>generate_password\<close>, told apart by their message and
  named as the specification names them, and the \<^verbatim>\<open>RuntimeError\<close> that the
  \<^verbatim>\<open>except Exception\<close> handler of lines 127-128 raises:
  \<^item> \<open>InvalidPool\<close>: line 93, the custom set has fewer than two different characters;
  \<^item> \<open>NoCategorySelected\<close>: line 112, raised when \<^verbatim>\<open>full_pool\<close> is empty;
  \<^item> \<open>LengthTooShort\<close>: line 114, \<^verbatim>\<open>length < MIN_LENGTH\<close>;
  \<^item> \<open>LengthBelowCategoryMinimum\<close>: line 116, \<^verbatim>\<open>length < len(pools)\<close>;
  \<^item> \<open>InternalError\<close>: line 128.
\<close>

datatype error =
    InvalidPool
  | NoCategorySelected
  | LengthTooShort
  | LengthBelowCategoryMinimum
  | InternalError

subsection \<open>The secure random source\<close>

text \<open>
  \<^verbatim>\<open>secrets.choice\<close> and \<^verbatim>\<open>secrets.SystemRandom().shuffle\<close> are library code; both
  obtain every index from \<^verbatim>\<open>_randbelow(n)\<close>, which returns some index below \<open>n\<close>. The
  source is modelled as an arbitrary infinite sequence \<open>raw\<close> of naturals together with
  the number \<open>drawn\<close> of indices handed out so far; the \<open>k\<close>-th call of
  \<^verbatim>\<open>_randbelow(n)\<close> returns \<open>raw k mod n\<close>. Every sequence of outcomes the library can
  produce is the behaviour of some \<open>raw\<close>, so a theorem for all \<open>raw\<close> holds for every run.
\<close>

record rng =
  raw :: "nat \<Rightarrow> nat"
  drawn :: nat

definition randbelow :: "nat \<Rightarrow> rng \<Rightarrow> nat \<times> rng" where
  "randbelow n g = (raw g (drawn g) mod n, g\<lparr>drawn := Suc (drawn g)\<rparr>)"

text \<open>
  \<^verbatim>\<open>choice(seq)\<close> raises \<^verbatim>\<open>IndexError\<close> on an empty sequence (the result \<open>None\<close>, no
  index drawn) and returns \<^verbatim>\<open>seq[_randbelow(len(seq))]\<close> otherwise.
\<close>

definition choice :: "'a list \<Rightarrow> rng \<Rightarrow> 'a option \<times> rng" where
  "choice seq g =
     (if seq = [] then (None, g)
      else (case randbelow (length seq) g of (i, g') \<Rightarrow> (Some (seq ! i), g')))"

text \<open>
  \<^verbatim>\<open>shuffle(x)\<close> is the library's Fisher-Yates loop
  \<^verbatim>\<open>for i in reversed(range(1, len(x))): j = randbelow(i + 1); x[i], x[j] = x[j], x[i]\<close>.
  \<open>shuffle_from i\<close> runs the iterations \<open>i, i - 1, ..., 1\<close>.
\<close>

fun shuffle_from :: "nat \<Rightarrow> 'a list \<Rightarrow> rng \<Rightarrow> 'a list \<times> rng" where
  "shuffle_from 0 x g = (x, g)"
| "shuffle_from (Suc i) x g =
     (case randbelow (Suc i + 1) g of
        (j, g') \<Rightarrow> shuffle_from i (x[Suc i := x ! j, j := x ! Suc i]) g')"

definition shuffle :: "'a list \<Rightarrow> rng \<Rightarrow> 'a list \<times> rng" where
  "shuffle x g = shuffle_from (length x - 1) x g"

subsection \<open>\<^verbatim>\<open>calculate_entropy\<close> (lines 83-85)\<close>

text \<open>
  Both arguments are Python integers of any sign and size. Two library operations of the
  expression \<^verbatim>\<open>length * math.log2(pool_size)\<close> can raise:
  \<^item> \<^verbatim>\<open>math.log2(x)\<close> raises \<^verbatim>\<open>ValueError\<close> (math domain error) unless \<open>x\<close> is positive;
  \<^item> the product of an integer and a float converts the integer to a float first, which
    raises \<^verbatim>\<open>OverflowError\<close> when the integer rounds to \<open>2 ^ 1024\<close>, that is when its
    magnitude is at least \<open>2 ^ 1024 - 2 ^ 970\<close>.
  The operands are evaluated from left to right, so the logarithm is taken before the
  conversion. Floats are real numbers here: rounding is not part of the model.
\<close>

datatype py_exception = ValueError | OverflowError

definition log2 :: "int \<Rightarrow> py_exception + real" where
  "log2 x = (if x \<le> 0 then Inl ValueError else Inr (log 2 (real_of_int x)))"

definition float_int_bound :: int where
  "float_int_bound = 2 ^ 1024 - 2 ^ 970"

definition float_of_int :: "int \<Rightarrow> py_exception + real" where
  "float_of_int n =
     (if \<bar>n\<bar> < float_int_bound then Inr (real_of_int n) else Inl OverflowError)"

definition calculate_entropy :: "int \<Rightarrow> int \<Rightarrow> py_exception + real" where
  "calculate_entropy pool_size len =
     (if pool_size = 0 \<or> len = 0 then Inr 0
      else (case log2 pool_size of
              Inl e \<Rightarrow> Inl e
            | Inr l \<Rightarrow>
                (case float_of_int len of
                   Inl e \<Rightarrow> Inl e
                 | Inr f \<Rightarrow> Inr (f * l))))"

subsection \<open>\<^verbatim>\<open>generate_password\<close> (lines 87-128)\<close>

text \<open>
  Lines 88-109: the list \<^verbatim>\<open>pools\<close> and the string \<^verbatim>\<open>full_pool\<close>. The test
  \<^verbatim>\<open>if custom_chars:\<close> is Python truthiness: \<^verbatim>\<open>None\<close> and the empty string both take
  the \<^verbatim>\<open>else\<close> branch. \<^verbatim>\<open>len(set(custom_chars))\<close> is \<open>card (set cs)\<close>.
\<close>

definition add_pool :: "bool \<Rightarrow> string \<Rightarrow> string list \<times> string \<Rightarrow> string list \<times> string" where
  "add_pool enabled chars st =
     (if enabled then (fst st @ [chars], snd st @ chars) else st)"

definition named_pools :: "bool \<Rightarrow> bool \<Rightarrow> bool \<Rightarrow> bool \<Rightarrow> bool \<Rightarrow> string list \<times> string" where
  "named_pools use_upper use_lower use_digits use_symbols use_safe =
     add_pool use_symbols (if use_safe then CHARS_SYMBOLS_SAFE else CHARS_SYMBOLS)
       (add_pool use_digits CHARS_DIGITS
         (add_pool use_upper CHARS_UPPER
           (add_pool use_lower CHARS_LOWER ([], []))))"

definition build_pools ::
  "bool \<Rightarrow> bool \<Rightarrow> bool \<Rightarrow> bool \<Rightarrow> bool \<Rightarrow> string option \<Rightarrow> error + string list \<times> string" where
  "build_pools use_upper use_lower use_digits use_symbols use_safe custom_chars =
     (case custom_chars of
        None \<Rightarrow> Inr (named_pools use_upper use_lower use_digits use_symbols use_safe)
      | Some cs \<Rightarrow>
          if cs \<noteq> [] then
            (if card (set cs) < 2 then Inl InvalidPool else Inr ([cs], cs))
          else Inr (named_pools use_upper use_lower use_digits use_symbols use_safe))"

text \<open>
  Lines 120-121: one character of each pool in turn, appended to \<^verbatim>\<open>password_chars\<close>.
  \<open>None\<close> is the \<^verbatim>\<open>IndexError\<close> of \<^verbatim>\<open>secrets.choice\<close>.
\<close>

fun choose_each :: "string list \<Rightarrow> string \<Rightarrow> rng \<Rightarrow> string option \<times> rng" where
  "choose_each [] password_chars g = (Some password_chars, g)"
| "choose_each (pool # pools) password_chars g =
     (case choice pool g of
        (None, g') \<Rightarrow> (None, g')
      | (Some c, g') \<Rightarrow> choose_each pools (password_chars @ [c]) g')"

text \<open>Lines 122-123: \<open>n\<close> more characters of \<^verbatim>\<open>full_pool\<close>.\<close>

fun fill :: "nat \<Rightarrow> string \<Rightarrow> string \<Rightarrow> rng \<Rightarrow> string option \<times> rng" where
  "fill 0 full_pool password_chars g = (Some password_chars, g)"
| "fill (Suc n) full_pool password_chars g =
     (case choice full_pool g of
        (None, g') \<Rightarrow> (None, g')
      | (Some c, g') \<Rightarrow> fill n full_pool (password_chars @ [c]) g')"

text \<open>
  Lines 118-128, the \<^verbatim>\<open>try\<close> block: \<open>None\<close> is an exception caught by the handler
  (an \<^verbatim>\<open>IndexError\<close> of \<^verbatim>\<open>secrets.choice\<close> or an exception of \<^verbatim>\<open>calculate_entropy\<close>).
  \<^verbatim>\<open>range(length - len(password_chars))\<close> is empty for a negative argument, hence \<open>nat\<close>.
\<close>

definition construct ::
  "int \<Rightarrow> string list \<Rightarrow> string \<Rightarrow> rng \<Rightarrow> (string \<times> real) option \<times> rng" where
  "construct len pools full_pool g =
     (case choose_each pools [] g of
        (None, g1) \<Rightarrow> (None, g1)
      | (Some chars1, g1) \<Rightarrow>
          (case fill (nat (len - int (length chars1))) full_pool chars1 g1 of
             (None, g2) \<Rightarrow> (None, g2)
           | (Some chars2, g2) \<Rightarrow>
               (case shuffle chars2 g2 of
                  (password_chars, g3) \<Rightarrow>
                    (case calculate_entropy (int (length full_pool)) len of
                       Inl e \<Rightarrow> (None, g3)
                     | Inr bits \<Rightarrow> (Some (password_chars, bits), g3)))))"

text \<open>
  The whole function. The result is the raised error or the returned pair, together with
  the random source as the call leaves it.
\<close>

definition generate_password ::
  "int \<Rightarrow> bool \<Rightarrow> bool \<Rightarrow> bool \<Rightarrow> bool \<Rightarrow> bool \<Rightarrow> string option \<Rightarrow> rng
     \<Rightarrow> (error + string \<times> real) \<times> rng" where
  "generate_password len use_upper use_lower use_digits use_symbols use_safe custom_chars g =
     (case build_pools use_upper use_lower use_digits use_symbols use_safe custom_chars of
        Inl e \<Rightarrow> (Inl e, g)
      | Inr (pools, full_pool) \<Rightarrow>
          if full_pool = [] then (Inl NoCategorySelected, g)
          else if len < MIN_LENGTH then (Inl LengthTooShort, g)
          else if len < int (length pools) then (Inl LengthBelowCategoryMinimum, g)
          else (case construct len pools full_pool g of
                  (None, g') \<Rightarrow> (Inl InternalError, g')
                | (Some r, g') \<Rightarrow> (Inr r, g')))"

subsection \<open>Two concrete random sources\<close>

definition g0 :: rng where
  "g0 = \<lparr>raw = (\<lambda>k. 7 * k + 3), drawn = 0\<rparr>"

definition g1 :: rng where
  "g1 = \<lparr>raw = (\<lambda>k. k * k + 5), drawn = 0\<rparr>"

section \<open>Properties\<close>

subsection \<open>The random source and the library calls\<close>

lemma randbelow_less: "0 < n \<Longrightarrow> fst (randbelow n g) < n"
  by (simp add: randbelow_def)

lemma randbelow_rng: "snd (randbelow n g) = g\<lparr>drawn := Suc (drawn g)\<rparr>"
  by (simp add: randbelow_def)

lemma choice_nonempty:
  assumes "seq \<noteq> []"
  shows "\<exists>c. c \<in> set seq \<and> choice seq g = (Some c, g\<lparr>drawn := Suc (drawn g)\<rparr>)"
  using assms by (simp add: choice_def randbelow_def)

lemma shuffle_from_mset:
  "i < length x \<Longrightarrow> mset (fst (shuffle_from i x g)) = mset x"
proof (induction i arbitrary: x g)
  case 0
  then show ?case by simp
next
  case (Suc i)
  obtain j g' where r: "randbelow (Suc i + 1) g = (j, g')"
    by (cases "randbelow (Suc i + 1) g")
  have "j < Suc i + 1"
    using randbelow_less [of "Suc i + 1" g] r by simp
  with Suc.prems have j: "j < length x" by simp
  let ?y = "x[Suc i := x ! j, j := x ! Suc i]"
  have "mset ?y = mset x"
    using mset_swap [OF j Suc.prems] .
  moreover have "mset (fst (shuffle_from i ?y g')) = mset ?y"
    using Suc.prems by (intro Suc.IH) simp
  ultimately show ?case
    using r by simp
qed

lemma shuffle_from_rng:
  "snd (shuffle_from i x g) = g\<lparr>drawn := drawn g + i\<rparr>"
proof (induction i arbitrary: x g)
  case 0
  then show ?case by simp
next
  case (Suc i)
  then show ?case
    by (simp add: randbelow_def split: prod.splits)
qed

lemma shuffle_mset: "mset (fst (shuffle x g)) = mset x"
proof (cases x)
  case Nil
  then show ?thesis by (simp add: shuffle_def)
next
  case (Cons a as)
  then show ?thesis by (simp add: shuffle_def shuffle_from_mset)
qed

lemma shuffle_rng: "snd (shuffle x g) = g\<lparr>drawn := drawn g + (length x - 1)\<rparr>"
  by (simp add: shuffle_def shuffle_from_rng)


lemma choose_each_ok:
  assumes "\<forall>p \<in> set pools. p \<noteq> []"
  shows "\<exists>cs. list_all2 (\<lambda>c p. c \<in> set p) cs pools \<and>
           choose_each pools acc g = (Some (acc @ cs), g\<lparr>drawn := drawn g + length pools\<rparr>)"
  using assms
proof (induction pools arbitrary: acc g)
  case Nil
  then show ?case by simp
next
  case (Cons pool pools)
  from Cons.prems have "pool \<noteq> []" by simp
  then obtain c where c: "c \<in> set pool"
    and ch: "choice pool g = (Some c, g\<lparr>drawn := Suc (drawn g)\<rparr>)"
    using choice_nonempty by blast
  from Cons.prems have "\<forall>p \<in> set pools. p \<noteq> []" by simp
  from Cons.IH [OF this, of "acc @ [c]" "g\<lparr>drawn := Suc (drawn g)\<rparr>"]
  obtain cs where cs: "list_all2 (\<lambda>c p. c \<in> set p) cs pools"
    and rec: "choose_each pools (acc @ [c]) (g\<lparr>drawn := Suc (drawn g)\<rparr>) =
       (Some ((acc @ [c]) @ cs), g\<lparr>drawn := Suc (drawn g) + length pools\<rparr>)"
    by auto
  have "list_all2 (\<lambda>c p. c \<in> set p) (c # cs) (pool # pools)"
    using c cs by simp
  moreover have "choose_each (pool # pools) acc g =
      (Some (acc @ c # cs), g\<lparr>drawn := drawn g + length (pool # pools)\<rparr>)"
    using ch rec by simp
  ultimately show ?case by blast
qed

lemma fill_ok:
  assumes "full_pool \<noteq> []"
  shows "\<exists>cs. length cs = n \<and> set cs \<subseteq> set full_pool \<and>
           fill n full_pool acc g = (Some (acc @ cs), g\<lparr>drawn := drawn g + n\<rparr>)"
proof (induction n arbitrary: acc g)
  case 0
  then show ?case by simp
next
  case (Suc n)
  obtain c where c: "c \<in> set full_pool"
    and ch: "choice full_pool g = (Some c, g\<lparr>drawn := Suc (drawn g)\<rparr>)"
    using choice_nonempty [OF assms] by blast
  from Suc.IH [of "acc @ [c]" "g\<lparr>drawn := Suc (drawn g)\<rparr>"]
  obtain cs where cs: "length cs = n" "set cs \<subseteq> set full_pool"
    and rec: "fill n full_pool (acc @ [c]) (g\<lparr>drawn := Suc (drawn g)\<rparr>) =
       (Some ((acc @ [c]) @ cs), g\<lparr>drawn := Suc (drawn g) + n\<rparr>)"
    by auto
  have "length (c # cs) = Suc n" "set (c # cs) \<subseteq> set full_pool"
    using c cs by simp_all
  moreover have "fill (Suc n) full_pool acc g =
      (Some (acc @ c # cs), g\<lparr>drawn := drawn g + Suc n\<rparr>)"
    using ch rec by simp
  ultimately show ?case by blast
qed

lemma CHARS_SYMBOLS_codes:
  "map of_char CHARS_SYMBOLS = ([33..<48] @ [58..<65] @ [91..<97] @ [123..<127] :: nat list)"
  by (simp add: CHARS_SYMBOLS_def upt_rec_numeral)

lemma pool_constants_nonempty:
  "CHARS_LOWER \<noteq> []" "CHARS_UPPER \<noteq> []" "CHARS_DIGITS \<noteq> []"
  "CHARS_SYMBOLS \<noteq> []" "CHARS_SYMBOLS_SAFE \<noteq> []"
  by (simp_all add: CHARS_LOWER_def CHARS_UPPER_def CHARS_DIGITS_def
      CHARS_SYMBOLS_def CHARS_SYMBOLS_SAFE_def)

lemma add_pool_inv:
  assumes "snd st = concat (fst st)" "\<forall>p \<in> set (fst st). p \<noteq> []" "chars \<noteq> []"
  shows "snd (add_pool b chars st) = concat (fst (add_pool b chars st))"
    and "\<forall>p \<in> set (fst (add_pool b chars st)). p \<noteq> []"
    and "length (fst (add_pool b chars st)) \<le> Suc (length (fst st))"
  using assms by (auto simp: add_pool_def)

lemma named_pools_inv:
  "snd (named_pools uu ul ud us safe) = concat (fst (named_pools uu ul ud us safe))"
  "\<forall>p \<in> set (fst (named_pools uu ul ud us safe)). p \<noteq> []"
  "length (fst (named_pools uu ul ud us safe)) \<le> 4"
  by (auto simp: named_pools_def add_pool_def pool_constants_nonempty)

lemma build_pools_inv:
  assumes "build_pools uu ul ud us safe cc = Inr (pools, full_pool)"
  shows "full_pool = concat pools" and "\<forall>p \<in> set pools. p \<noteq> []" and "length pools \<le> 4"
proof -
  have "full_pool = concat pools \<and> (\<forall>p \<in> set pools. p \<noteq> []) \<and> length pools \<le> 4"
  proof (cases "cc = None \<or> cc = Some []")
    case True
    then have "named_pools uu ul ud us safe = (pools, full_pool)"
      using assms by (auto simp: build_pools_def)
    then show ?thesis
      using named_pools_inv [of uu ul ud us safe] by simp
  next
    case False
    then obtain cs where "cc = Some cs" "cs \<noteq> []" by auto
    then show ?thesis
      using assms by (auto simp: build_pools_def split: if_splits)
  qed
  then show "full_pool = concat pools" and "\<forall>p \<in> set pools. p \<noteq> []" and "length pools \<le> 4"
    by simp_all
qed


lemma float_int_bound_large: "2 ^ 970 \<le> float_int_bound"
proof -
  have "(2::int) ^ 1024 = 2 ^ 970 * 2 ^ 54"
    by (simp flip: power_add)
  moreover have "(2::int) \<le> 2 ^ 54"
    by simp
  ultimately have "(2::int) ^ 970 * 2 \<le> 2 ^ 1024"
    by (simp only: mult_le_cancel_left_pos zero_less_power zero_less_numeral)
  then show ?thesis
    by (simp add: float_int_bound_def)
qed

lemma MAX_LENGTH_below_bound: "MAX_LENGTH < float_int_bound"
proof -
  have "(2::int) ^ 8 \<le> 2 ^ 970"
    by (rule power_increasing) simp_all
  then have "(256::int) \<le> float_int_bound"
    using float_int_bound_large by simp
  then show ?thesis
    by (simp add: MAX_LENGTH_def)
qed

lemma calculate_entropy_pos:
  "0 < pool_size \<Longrightarrow> \<bar>len\<bar> < float_int_bound \<Longrightarrow>
     calculate_entropy pool_size len =
       Inr (real_of_int len * log 2 (real_of_int pool_size))"
  by (simp add: calculate_entropy_def log2_def float_of_int_def)

lemma calculate_entropy_overflow:
  "0 < pool_size \<Longrightarrow> float_int_bound \<le> \<bar>len\<bar> \<Longrightarrow>
     calculate_entropy pool_size len = Inl OverflowError"
proof -
  assume p: "0 < pool_size" and l: "float_int_bound \<le> \<bar>len\<bar>"
  have "0 < float_int_bound"
    using float_int_bound_large zero_less_power [of "2::int" 970] by linarith
  with l have "len \<noteq> 0" by auto
  with p l show ?thesis
    by (simp add: calculate_entropy_def log2_def float_of_int_def)
qed

lemma list_all2_member:
  assumes "list_all2 (\<lambda>c p. c \<in> set p) cs pools" "p \<in> set pools"
  shows "\<exists>c \<in> set cs. c \<in> set p"
proof -
  from assms(2) obtain k where k: "k < length pools" "pools ! k = p"
    by (auto simp: in_set_conv_nth)
  with assms(1) have "k < length cs" "cs ! k \<in> set p"
    by (auto simp: list_all2_conv_all_nth)
  then show ?thesis
    using nth_mem by blast
qed

lemma list_all2_subset:
  "list_all2 (\<lambda>c p. c \<in> set p) cs pools \<Longrightarrow> set cs \<subseteq> \<Union> (set ` set pools)"
  by (induction cs pools rule: list_all2_induct) auto

lemma construct_ok:
  assumes ne: "\<forall>p \<in> set pools. p \<noteq> []" and full: "full_pool \<noteq> []"
    and len: "int (length pools) \<le> len" and range: "len < float_int_bound"
  shows "\<exists>pw. construct len pools full_pool g =
             (Some (pw, real_of_int len * log 2 (real (length full_pool))),
              g\<lparr>drawn := drawn g + nat (2 * len - 1)\<rparr>) \<and>
           int (length pw) = len \<and>
           (\<forall>p \<in> set pools. \<exists>c \<in> set pw. c \<in> set p) \<and>
           set pw \<subseteq> \<Union> (set ` set pools) \<union> set full_pool"
proof -
  let ?g1 = "g\<lparr>drawn := drawn g + length pools\<rparr>"
  obtain cs1 where cs1: "list_all2 (\<lambda>c p. c \<in> set p) cs1 pools"
    and e1: "choose_each pools [] g = (Some ([] @ cs1), ?g1)"
    using choose_each_ok [OF ne] by blast
  have l1: "length cs1 = length pools"
    using cs1 by (rule list_all2_lengthD)
  let ?n = "nat (len - int (length cs1))"
  let ?g2 = "?g1\<lparr>drawn := drawn ?g1 + ?n\<rparr>"
  obtain cs2 where cs2: "length cs2 = ?n" "set cs2 \<subseteq> set full_pool"
    and e2: "fill ?n full_pool cs1 ?g1 = (Some (cs1 @ cs2), ?g2)"
    using fill_ok [OF full] by blast
  let ?buf = "cs1 @ cs2"
  let ?g3 = "?g2\<lparr>drawn := drawn ?g2 + (length ?buf - 1)\<rparr>"
  obtain pw where e3: "shuffle ?buf ?g2 = (pw, ?g3)"
    using shuffle_rng [of ?buf ?g2] by (cases "shuffle ?buf ?g2") auto
  have m: "mset pw = mset ?buf"
    using shuffle_mset [of ?buf ?g2] e3 by simp
  have lbuf: "int (length ?buf) = len"
    using l1 cs2(1) len by simp
  have lpw: "int (length pw) = len"
    using lbuf mset_eq_length [OF m] by simp
  have spw: "set pw = set cs1 \<union> set cs2"
    using mset_eq_setD [OF m] by simp
  have e4: "calculate_entropy (int (length full_pool)) len =
      Inr (real_of_int len * log 2 (real (length full_pool)))"
    using full len range calculate_entropy_pos [of "int (length full_pool)" len] by simp
  have g3: "?g3 = g\<lparr>drawn := drawn g + nat (2 * len - 1)\<rparr>"
  proof -
    have "length pools + ?n + (length ?buf - 1) = nat (2 * len - 1)"
      using l1 cs2(1) len by simp
    then show ?thesis by simp
  qed
  have "construct len pools full_pool g =
      (Some (pw, real_of_int len * log 2 (real (length full_pool))), ?g3)"
    using e1 e2 e3 e4 by (simp add: construct_def)
  moreover have "\<forall>p \<in> set pools. \<exists>c \<in> set pw. c \<in> set p"
    using list_all2_member [OF cs1] spw by blast
  moreover have "set pw \<subseteq> \<Union> (set ` set pools) \<union> set full_pool"
  proof -
    have "set cs1 \<subseteq> \<Union> (set ` set pools)"
      using cs1 by (rule list_all2_subset)
    then show ?thesis using spw cs2(2) by blast
  qed
  ultimately show ?thesis
    using lpw g3 by auto
qed

subsection \<open>Running the loops on a concrete random source\<close>

text \<open>
  One iteration of each loop as a rewrite rule with the drawn index written out, so that
  the simplifier runs a loop on numerals in as many steps as the loop has iterations.
\<close>

lemma choose_each_step:
  "pool \<noteq> [] \<Longrightarrow> choose_each (pool # pools) password_chars g =
     choose_each pools (password_chars @ [pool ! (raw g (drawn g) mod length pool)])
       (g\<lparr>drawn := Suc (drawn g)\<rparr>)"
  by (simp add: choice_def randbelow_def)

lemma fill_step:
  "full_pool \<noteq> [] \<Longrightarrow> fill (numeral k) full_pool password_chars g =
     fill (pred_numeral k) full_pool
       (password_chars @ [full_pool ! (raw g (drawn g) mod length full_pool)])
       (g\<lparr>drawn := Suc (drawn g)\<rparr>)"
  by (simp add: numeral_eq_Suc choice_def randbelow_def)

lemma fill_last:
  "full_pool \<noteq> [] \<Longrightarrow> fill (Suc 0) full_pool password_chars g =
     (Some (password_chars @ [full_pool ! (raw g (drawn g) mod length full_pool)]),
      g\<lparr>drawn := Suc (drawn g)\<rparr>)"
  by (simp add: choice_def randbelow_def)

lemma shuffle_from_step:
  "shuffle_from (numeral k) x g =
     shuffle_from (pred_numeral k)
       (x[numeral k := x ! (raw g (drawn g) mod (numeral k + 1)),
          raw g (drawn g) mod (numeral k + 1) := x ! numeral k])
       (g\<lparr>drawn := Suc (drawn g)\<rparr>)"
  by (simp add: numeral_eq_Suc randbelow_def)

lemma shuffle_from_last:
  "shuffle_from (Suc 0) x g =
     (x[Suc 0 := x ! (raw g (drawn g) mod 2), raw g (drawn g) mod 2 := x ! Suc 0],
      g\<lparr>drawn := Suc (drawn g)\<rparr>)"
  by (simp add: numeral_2_eq_2 randbelow_def)

lemma list_update_Cons_numeral:
  "(x # xs)[numeral k := v] = x # xs[pred_numeral k := v]"
  by (simp add: numeral_eq_Suc)

lemmas run_simps = choose_each_step fill_step fill_last shuffle_from_step shuffle_from_last
  list_update_Cons_numeral

subsection \<open>The logarithm of 26\<close>

lemma log2_26_bounds: "94 \<le> 20 * log 2 26 \<and> 20 * log 2 26 < 94 + 1 / 20"
proof -
  have l20: "log 2 ((26::real) ^ 20) = 20 * log 2 26"
    using log_nat_power [of 26 2 20] by simp
  have p94: "log 2 ((2::real) ^ 94) = 94"
    using log_pow_cancel [of 2 94] by simp
  have "(2::real) ^ 94 \<le> 26 ^ 20"
    by simp
  then have "log 2 ((2::real) ^ 94) \<le> log 2 (26 ^ 20)"
    by (subst log_le_cancel_iff) simp_all
  then have lo: "94 \<le> 20 * log 2 26"
    by (simp only: l20 p94)
  have "(26::real) ^ 20 < 2 ^ 94 * (101 / 100)"
    by simp
  then have "log 2 ((26::real) ^ 20) < log 2 (2 ^ 94 * (101 / 100))"
    by (subst log_less_cancel_iff) simp_all
  also have "\<dots> = log 2 (2 ^ 94) + log 2 (101 / 100)"
    by (rule log_mult_pos) simp_all
  finally have up1: "20 * log 2 26 < 94 + log 2 (101 / 100)"
    by (simp only: l20 p94)
  have "((101 / 100)::real) ^ 20 < 2"
    by (simp add: power_divide)
  then have "log 2 (((101 / 100)::real) ^ 20) < log 2 2"
    by (subst log_less_cancel_iff) simp_all
  moreover have "log 2 (((101 / 100)::real) ^ 20) = 20 * log 2 (101 / 100)"
    using log_nat_power [of "101 / 100" 2 20] by simp
  ultimately have "20 * log 2 (101 / 100 :: real) < 1"
    by simp
  then have "log 2 (101 / 100 :: real) < 1 / 20"
    by linarith
  with lo up1 show ?thesis by linarith
qed

subsection \<open>Accepted and rejected requests\<close>

text \<open>
  The pool checks of lines 91-112 pass when a non-empty custom pool has two different
  characters, or when there is no custom pool and a category is enabled.
\<close>

lemma build_pools_custom:
  "cs \<noteq> [] \<Longrightarrow> 2 \<le> card (set cs) \<Longrightarrow>
     build_pools use_upper use_lower use_digits use_symbols use_safe (Some cs) = Inr ([cs], cs)"
  by (simp add: build_pools_def)

lemma build_pools_named:
  assumes "custom_chars = None \<or> custom_chars = Some []"
    and "use_upper \<or> use_lower \<or> use_digits \<or> use_symbols"
  shows "\<exists>pools full_pool.
           build_pools use_upper use_lower use_digits use_symbols use_safe custom_chars =
             Inr (pools, full_pool) \<and> full_pool \<noteq> []"
proof -
  have "snd (named_pools use_upper use_lower use_digits use_symbols use_safe) \<noteq> []"
    using assms(2) by (auto simp: named_pools_def add_pool_def pool_constants_nonempty)
  moreover have
    "build_pools use_upper use_lower use_digits use_symbols use_safe custom_chars =
       Inr (named_pools use_upper use_lower use_digits use_symbols use_safe)"
    using assms(1) by (auto simp: build_pools_def)
  ultimately show ?thesis
    by (cases "named_pools use_upper use_lower use_digits use_symbols use_safe") auto
qed

lemma build_pools_passes:
  assumes "custom_chars = None \<or> custom_chars = Some [] \<longrightarrow>
      use_upper \<or> use_lower \<or> use_digits \<or> use_symbols"
    and "\<forall>cs. custom_chars = Some cs \<and> cs \<noteq> [] \<longrightarrow> 2 \<le> card (set cs)"
  shows "\<exists>pools full_pool.
           build_pools use_upper use_lower use_digits use_symbols use_safe custom_chars =
             Inr (pools, full_pool) \<and> full_pool \<noteq> []"
proof (cases "custom_chars = None \<or> custom_chars = Some []")
  case True
  with assms(1) show ?thesis
    by (intro build_pools_named) simp_all
next
  case False
  then obtain cs where cs: "custom_chars = Some cs" "cs \<noteq> []"
    by auto
  with assms(2) have "2 \<le> card (set cs)"
    by simp
  from build_pools_custom [OF cs(2) this] cs show ?thesis
    by simp
qed

lemma generate_password_accepted:
  assumes bp: "build_pools use_upper use_lower use_digits use_symbols use_safe custom_chars =
      Inr (pools, full_pool)"
    and full: "full_pool \<noteq> []" and len: "MIN_LENGTH \<le> len"
    and range: "len < float_int_bound"
  shows "\<exists>pw. generate_password len use_upper use_lower use_digits use_symbols use_safe
               custom_chars g =
             (Inr (pw, real_of_int len * log 2 (real (length full_pool))),
              g\<lparr>drawn := drawn g + nat (2 * len - 1)\<rparr>) \<and>
           int (length pw) = len \<and>
           (\<forall>p \<in> set pools. \<exists>c \<in> set pw. c \<in> set p) \<and>
           set pw \<subseteq> set full_pool"
proof -
  note inv = build_pools_inv [OF bp]
  have k: "int (length pools) \<le> len"
    using inv(3) len by (simp add: MIN_LENGTH_def)
  obtain pw where c: "construct len pools full_pool g =
      (Some (pw, real_of_int len * log 2 (real (length full_pool))),
       g\<lparr>drawn := drawn g + nat (2 * len - 1)\<rparr>)"
    and l: "int (length pw) = len"
    and m: "\<forall>p \<in> set pools. \<exists>c \<in> set pw. c \<in> set p"
    and s: "set pw \<subseteq> \<Union> (set ` set pools) \<union> set full_pool"
    using construct_ok [OF inv(2) full k range, of g] by blast
  have "set pw \<subseteq> set full_pool"
    using s inv(1) by auto
  moreover have "generate_password len use_upper use_lower use_digits use_symbols use_safe
      custom_chars g =
      (Inr (pw, real_of_int len * log 2 (real (length full_pool))),
       g\<lparr>drawn := drawn g + nat (2 * len - 1)\<rparr>)"
    using bp full len k c by (simp add: generate_password_def)
  ultimately show ?thesis
    using l m by blast
qed

lemma build_pools_Inl_D:
  "build_pools use_upper use_lower use_digits use_symbols use_safe custom_chars = Inl e \<Longrightarrow>
     e = InvalidPool"
  by (auto simp: build_pools_def split: option.splits if_splits)

text \<open>A call that returns has passed every check, and its length converts to a float.\<close>

lemma construct_Some_D:
  assumes "construct len pools full_pool g = (Some r, g')"
    and "full_pool \<noteq> []" and "len \<noteq> 0"
  shows "\<bar>len\<bar> < float_int_bound"
proof (rule ccontr)
  assume "\<not> \<bar>len\<bar> < float_int_bound"
  then have "calculate_entropy (int (length full_pool)) len = Inl OverflowError"
    using assms(2) by (intro calculate_entropy_overflow) simp_all
  with assms(1) show False
    by (auto simp: construct_def split: prod.splits option.splits)
qed

lemma generate_password_Inr_D:
  assumes "generate_password len use_upper use_lower use_digits use_symbols use_safe
      custom_chars g = (Inr r, g')"
  shows "\<exists>pools full_pool.
           build_pools use_upper use_lower use_digits use_symbols use_safe custom_chars =
             Inr (pools, full_pool) \<and> full_pool \<noteq> [] \<and> MIN_LENGTH \<le> len \<and>
           len < float_int_bound"
proof -
  obtain pools full_pool where
    bp: "build_pools use_upper use_lower use_digits use_symbols use_safe custom_chars =
       Inr (pools, full_pool)" and full: "full_pool \<noteq> []" and len: "MIN_LENGTH \<le> len"
    and c: "construct len pools full_pool g = (Some r, g')"
    using assms
    by (auto simp: generate_password_def split: sum.splits prod.splits if_splits option.splits)
  have "len \<noteq> 0"
    using len by (simp add: MIN_LENGTH_def)
  from construct_Some_D [OF c full this] bp full len show ?thesis
    by auto
qed

text \<open>
  A call that fails with one of the \<^verbatim>\<open>ValueError\<close>s, or whose length converts to a
  float, has failed one of the checks of lines 91-114.
\<close>

lemma generate_password_rejected:
  assumes "generate_password len use_upper use_lower use_digits use_symbols use_safe
      custom_chars g = (Inl e, g')"
    and "e \<noteq> InternalError \<or> len < float_int_bound"
  shows "g' = g \<and>
     (case build_pools use_upper use_lower use_digits use_symbols use_safe custom_chars of
        Inl e' \<Rightarrow> e = e'
      | Inr (pools, full_pool) \<Rightarrow>
          if full_pool = [] then e = NoCategorySelected
          else len < MIN_LENGTH \<and> e = LengthTooShort)"
proof (cases "build_pools use_upper use_lower use_digits use_symbols use_safe custom_chars")
  case (Inl e')
  then show ?thesis
    using assms(1) by (simp add: generate_password_def)
next
  case (Inr pf)
  obtain pools full_pool where pf: "pf = (pools, full_pool)"
    by (cases pf)
  note bp = Inr [unfolded pf]
  show ?thesis
  proof (cases "full_pool = []")
    case True
    then show ?thesis
      using assms(1) bp by (simp add: generate_password_def)
  next
    case full: False
    show ?thesis
    proof (cases "len < MIN_LENGTH")
      case True
      then show ?thesis
        using assms(1) bp full by (simp add: generate_password_def)
    next
      case False
      then have len: "MIN_LENGTH \<le> len" by simp
      have k: "\<not> len < int (length pools)"
        using build_pools_inv(3) [OF bp] len by (simp add: MIN_LENGTH_def)
      have internal: "e = InternalError"
        using assms(1) bp full len k
        by (auto simp: generate_password_def split: prod.splits option.splits)
      with assms(2) have "len < float_int_bound"
        by simp
      from generate_password_accepted [OF bp full len this, of g]
      have False using assms(1) by auto
      then show ?thesis ..
    qed
  qed
qed

lemma generate_password_draws:
  assumes "generate_password len use_upper use_lower use_digits use_symbols use_safe
      custom_chars g = (Inr r, g')"
  shows "raw g' = raw g \<and> drawn g' = drawn g + nat (2 * len - 1)"
proof -
  obtain pools full_pool where
    "build_pools use_upper use_lower use_digits use_symbols use_safe custom_chars =
       Inr (pools, full_pool)" "full_pool \<noteq> []" "MIN_LENGTH \<le> len" "len < float_int_bound"
    using generate_password_Inr_D [OF assms] by blast
  from generate_password_accepted [OF this, of g]
  obtain pw where "generate_password len use_upper use_lower use_digits use_symbols use_safe
      custom_chars g = (Inr (pw, real_of_int len * log 2 (real (length full_pool))),
              g\<lparr>drawn := drawn g + nat (2 * len - 1)\<rparr>)"
    by blast
  with assms have "g' = g\<lparr>drawn := drawn g + nat (2 * len - 1)\<rparr>"
    by simp
  then show ?thesis by simp
qed

subsection \<open>Concrete runs\<close>

lemma generate_password_run:
  assumes "build_pools use_upper use_lower use_digits use_symbols use_safe custom_chars =
      Inr (pools, full_pool)"
    and "full_pool \<noteq> []" and "MIN_LENGTH \<le> len" and "len \<le> MAX_LENGTH"
    and "int (length pools) \<le> len"
    and "choose_each pools [] g = (Some chars1, ga)"
    and "nat (len - int (length chars1)) = m"
    and "fill m full_pool chars1 ga = (Some chars2, gb)"
    and "length chars2 = Suc n"
    and "shuffle_from n chars2 gb = (pw, gc)"
  shows "generate_password len use_upper use_lower use_digits use_symbols use_safe
           custom_chars g =
         (Inr (pw, real_of_int len * log 2 (real (length full_pool))), gc)"
proof -
  have "\<bar>len\<bar> < float_int_bound"
    using assms(3,4) MAX_LENGTH_below_bound by (simp add: MIN_LENGTH_def)
  then have "calculate_entropy (int (length full_pool)) len =
      Inr (real_of_int len * log 2 (real (length full_pool)))"
    using assms(2) calculate_entropy_pos [of "int (length full_pool)" len] by simp
  with assms show ?thesis
    by (simp add: generate_password_def construct_def shuffle_def)
qed

lemma run_digits:
  "generate_password 8 False False True False True None g0 =
     (Inr (''17853024'', 8 * log 2 10), g0\<lparr>drawn := 15\<rparr>)"
proof -
  have bp: "build_pools False False True False True None = Inr ([CHARS_DIGITS], CHARS_DIGITS)"
    by (simp add: build_pools_def named_pools_def add_pool_def)
  have c1: "choose_each [CHARS_DIGITS] [] g0 = (Some ''3'', g0\<lparr>drawn := 1\<rparr>)"
    by (simp add: run_simps g0_def CHARS_DIGITS_def del: choose_each.simps(2))
  have c2: "fill 7 CHARS_DIGITS ''3'' (g0\<lparr>drawn := 1\<rparr>) =
      (Some ''30741852'', g0\<lparr>drawn := 8\<rparr>)"
    by (simp add: run_simps g0_def CHARS_DIGITS_def del: fill.simps(2))
  have c3: "shuffle_from 7 ''30741852'' (g0\<lparr>drawn := 8\<rparr>) =
      (''17853024'', g0\<lparr>drawn := 15\<rparr>)"
    by (simp add: run_simps g0_def del: shuffle_from.simps(2))
  have "generate_password 8 False False True False True None g0 =
      (Inr (''17853024'', real_of_int 8 * log 2 (real (length CHARS_DIGITS))),
       g0\<lparr>drawn := 15\<rparr>)"
    by (rule generate_password_run [OF bp _ _ _ _ c1 _ c2 _ c3])
      (simp_all add: MIN_LENGTH_def MAX_LENGTH_def CHARS_DIGITS_def)
  then show ?thesis
    by (simp add: CHARS_DIGITS_def)
qed

lemma run_digits_other:
  "generate_password 8 False False True False True None g1 =
     (Inr (''14516490'', 8 * log 2 10), g1\<lparr>drawn := 15\<rparr>)"
proof -
  have bp: "build_pools False False True False True None = Inr ([CHARS_DIGITS], CHARS_DIGITS)"
    by (simp add: build_pools_def named_pools_def add_pool_def)
  have c1: "choose_each [CHARS_DIGITS] [] g1 = (Some ''5'', g1\<lparr>drawn := 1\<rparr>)"
    by (simp add: run_simps g1_def CHARS_DIGITS_def del: choose_each.simps(2))
  have c2: "fill 7 CHARS_DIGITS ''5'' (g1\<lparr>drawn := 1\<rparr>) =
      (Some ''56941014'', g1\<lparr>drawn := 8\<rparr>)"
    by (simp add: run_simps g1_def CHARS_DIGITS_def del: fill.simps(2))
  have c3: "shuffle_from 7 ''56941014'' (g1\<lparr>drawn := 8\<rparr>) =
      (''14516490'', g1\<lparr>drawn := 15\<rparr>)"
    by (simp add: run_simps g1_def del: shuffle_from.simps(2))
  have "generate_password 8 False False True False True None g1 =
      (Inr (''14516490'', real_of_int 8 * log 2 (real (length CHARS_DIGITS))),
       g1\<lparr>drawn := 15\<rparr>)"
    by (rule generate_password_run [OF bp _ _ _ _ c1 _ c2 _ c3])
      (simp_all add: MIN_LENGTH_def MAX_LENGTH_def CHARS_DIGITS_def)
  then show ?thesis
    by (simp add: CHARS_DIGITS_def)
qed

lemma run_lower:
  "generate_password 20 False True False False False None g0 =
     (Inr (''drmjtkeofxhavgzlcqsy'', 20 * log 2 26), g0\<lparr>drawn := 39\<rparr>)"
proof -
  have bp: "build_pools False True False False False None = Inr ([CHARS_LOWER], CHARS_LOWER)"
    by (simp add: build_pools_def named_pools_def add_pool_def)
  have c1: "choose_each [CHARS_LOWER] [] g0 = (Some ''d'', g0\<lparr>drawn := 1\<rparr>)"
    by (simp add: run_simps g0_def CHARS_LOWER_def del: choose_each.simps(2))
  have c2: "fill 19 CHARS_LOWER ''d'' (g0\<lparr>drawn := 1\<rparr>) =
      (Some ''dkryfmtahovcjqxelszg'', g0\<lparr>drawn := 20\<rparr>)"
    by (simp add: run_simps g0_def CHARS_LOWER_def del: fill.simps(2))
  have c3: "shuffle_from 19 ''dkryfmtahovcjqxelszg'' (g0\<lparr>drawn := 20\<rparr>) =
      (''drmjtkeofxhavgzlcqsy'', g0\<lparr>drawn := 39\<rparr>)"
    by (simp add: run_simps g0_def del: shuffle_from.simps(2))
  have "generate_password 20 False True False False False None g0 =
      (Inr (''drmjtkeofxhavgzlcqsy'', real_of_int 20 * log 2 (real (length CHARS_LOWER))),
       g0\<lparr>drawn := 39\<rparr>)"
    by (rule generate_password_run [OF bp _ _ _ _ c1 _ c2 _ c3])
      (simp_all add: MIN_LENGTH_def MAX_LENGTH_def CHARS_LOWER_def)
  then show ?thesis
    by (simp add: CHARS_LOWER_def)
qed

lemma run_all:
  "generate_password 8 True True True True False None g0 =
     (Inr (''F7MTdK0]'', 8 * log 2 94), g0\<lparr>drawn := 15\<rparr>)"
proof -
  let ?pools = "[CHARS_LOWER, CHARS_UPPER, CHARS_DIGITS, CHARS_SYMBOLS]"
  let ?full = "CHARS_LOWER @ CHARS_UPPER @ CHARS_DIGITS @ CHARS_SYMBOLS"
  have bp: "build_pools True True True True False None = Inr (?pools, ?full)"
    by (simp add: build_pools_def named_pools_def add_pool_def)
  have c1: "choose_each ?pools [] g0 = (Some ''dK7]'', g0\<lparr>drawn := 4\<rparr>)"
    by (simp add: run_simps g0_def CHARS_LOWER_def CHARS_UPPER_def CHARS_DIGITS_def
        CHARS_SYMBOLS_def del: choose_each.simps(2))
  have c2: "fill 4 ?full ''dK7]'' (g0\<lparr>drawn := 4\<rparr>) =
      (Some ''dK7]FMT0'', g0\<lparr>drawn := 8\<rparr>)"
    by (simp add: run_simps g0_def CHARS_LOWER_def CHARS_UPPER_def CHARS_DIGITS_def
        CHARS_SYMBOLS_def del: fill.simps(2))
  have c3: "shuffle_from 7 ''dK7]FMT0'' (g0\<lparr>drawn := 8\<rparr>) =
      (''F7MTdK0]'', g0\<lparr>drawn := 15\<rparr>)"
    by (simp add: run_simps g0_def del: shuffle_from.simps(2))
  have "generate_password 8 True True True True False None g0 =
      (Inr (''F7MTdK0]'', real_of_int 8 * log 2 (real (length ?full))), g0\<lparr>drawn := 15\<rparr>)"
    by (rule generate_password_run [OF bp _ _ _ _ c1 _ c2 _ c3])
      (simp_all add: MIN_LENGTH_def MAX_LENGTH_def CHARS_LOWER_def)
  then show ?thesis
    by (simp add: CHARS_LOWER_def CHARS_UPPER_def CHARS_DIGITS_def CHARS_SYMBOLS_def)
qed

lemma run_empty_custom:
  "generate_password 8 False True False False False (Some []) g0 =
     (Inr (''frmtdkay'', 8 * log 2 26), g0\<lparr>drawn := 15\<rparr>)"
proof -
  have bp: "build_pools False True False False False (Some []) =
      Inr ([CHARS_LOWER], CHARS_LOWER)"
    by (simp add: build_pools_def named_pools_def add_pool_def)
  have c1: "choose_each [CHARS_LOWER] [] g0 = (Some ''d'', g0\<lparr>drawn := 1\<rparr>)"
    by (simp add: run_simps g0_def CHARS_LOWER_def del: choose_each.simps(2))
  have c2: "fill 7 CHARS_LOWER ''d'' (g0\<lparr>drawn := 1\<rparr>) =
      (Some ''dkryfmta'', g0\<lparr>drawn := 8\<rparr>)"
    by (simp add: run_simps g0_def CHARS_LOWER_def del: fill.simps(2))
  have c3: "shuffle_from 7 ''dkryfmta'' (g0\<lparr>drawn := 8\<rparr>) =
      (''frmtdkay'', g0\<lparr>drawn := 15\<rparr>)"
    by (simp add: run_simps g0_def del: shuffle_from.simps(2))
  have "generate_password 8 False True False False False (Some []) g0 =
      (Inr (''frmtdkay'', real_of_int 8 * log 2 (real (length CHARS_LOWER))),
       g0\<lparr>drawn := 15\<rparr>)"
    by (rule generate_password_run [OF bp _ _ _ _ c1 _ c2 _ c3])
      (simp_all add: MIN_LENGTH_def MAX_LENGTH_def CHARS_LOWER_def)
  then show ?thesis
    by (simp add: CHARS_LOWER_def)
qed

lemma run_short:
  "generate_password 3 True True True True False None g0 = (Inl LengthTooShort, g0)"
  by (simp add: generate_password_def build_pools_def named_pools_def add_pool_def
      MIN_LENGTH_def CHARS_LOWER_def)

lemma run_custom:
  "generate_password 8 False False False False False (Some ''abca'') g0 =
     (Inr (''abcbacaa'', 8 * log 2 4), g0\<lparr>drawn := 15\<rparr>)"
proof -
  have bp: "build_pools False False False False False (Some ''abca'') =
      Inr ([''abca''], ''abca'')"
    by (simp add: build_pools_def card_insert_if)
  have c1: "choose_each [''abca''] [] g0 = (Some ''a'', g0\<lparr>drawn := 1\<rparr>)"
    by (simp add: run_simps g0_def del: choose_each.simps(2))
  have c2: "fill 7 ''abca'' ''a'' (g0\<lparr>drawn := 1\<rparr>) =
      (Some ''acbaacba'', g0\<lparr>drawn := 8\<rparr>)"
    by (simp add: run_simps g0_def del: fill.simps(2))
  have c3: "shuffle_from 7 ''acbaacba'' (g0\<lparr>drawn := 8\<rparr>) =
      (''abcbacaa'', g0\<lparr>drawn := 15\<rparr>)"
    by (simp add: run_simps g0_def del: shuffle_from.simps(2))
  have "generate_password 8 False False False False False (Some ''abca'') g0 =
      (Inr (''abcbacaa'', real_of_int 8 * log 2 (real (length ''abca''))),
       g0\<lparr>drawn := 15\<rparr>)"
    by (rule generate_password_run [OF bp _ _ _ _ c1 _ c2 _ c3])
      (simp_all add: MIN_LENGTH_def MAX_LENGTH_def)
  then show ?thesis
    by simp
qed

lemma small_lengths:
  "MIN_LENGTH \<le> 8" "8 < float_int_bound" "MIN_LENGTH \<le> 20" "20 < float_int_bound"
  using MAX_LENGTH_below_bound by (simp_all add: MIN_LENGTH_def MAX_LENGTH_def)

text \<open>
  What every request that passes the checks is given: the conditions on the arguments
  alone, the result in the conclusion.
\<close>

lemma generate_password_valid:
  assumes "MIN_LENGTH \<le> len" and "len < float_int_bound"
    and "custom_chars = None \<or> custom_chars = Some [] \<longrightarrow>
       use_upper \<or> use_lower \<or> use_digits \<or> use_symbols"
    and "\<forall>cs. custom_chars = Some cs \<and> cs \<noteq> [] \<longrightarrow> 2 \<le> card (set cs)"
  shows "\<exists>pools full_pool pw.
           build_pools use_upper use_lower use_digits use_symbols use_safe custom_chars =
             Inr (pools, full_pool) \<and>
           full_pool = concat pools \<and>
           generate_password len use_upper use_lower use_digits use_symbols use_safe custom_chars g =
             (Inr (pw, real_of_int len * log 2 (real (length full_pool))),
              g\<lparr>drawn := drawn g + nat (2 * len - 1)\<rparr>) \<and>
           int (length pw) = len \<and>
           (\<forall>p \<in> set pools. \<exists>c \<in> set pw. c \<in> set p) \<and>
           set pw \<subseteq> set full_pool"
proof -
  obtain pools full_pool where
    bp: "build_pools use_upper use_lower use_digits use_symbols use_safe custom_chars =
       Inr (pools, full_pool)" and full: "full_pool \<noteq> []"
    using build_pools_passes [OF assms(3,4)] by blast
  from generate_password_accepted [OF bp full assms(1,2), of g] build_pools_inv(1) [OF bp] bp
  show ?thesis
    by blast
qed

lemma named_pools_set:
  "set (fst (named_pools use_upper use_lower use_digits use_symbols use_safe)) =
     (if use_lower then {CHARS_LOWER} else {}) \<union>
     (if use_upper then {CHARS_UPPER} else {}) \<union>
     (if use_digits then {CHARS_DIGITS} else {}) \<union>
     (if use_symbols then {if use_safe then CHARS_SYMBOLS_SAFE else CHARS_SYMBOLS} else {})"
  by (simp add: named_pools_def add_pool_def)

section \<open>The claims\<close>

text \<open>
  A request passes the checks of lines 91-116 when its length is at least \<open>MIN_LENGTH\<close>
  and either a non-empty custom pool has two different characters or, without a custom
  pool, a category is enabled. Such a request returns a password provided its length
  converts to a float (it is below \<open>2 ^ 1024 - 2 ^ 970\<close>, as every length up to
  \<open>MAX_LENGTH\<close> is); beyond that the entropy computation raises inside the \<^verbatim>\<open>try\<close> block.
\<close>

text \<open>
  C1. Every request that passes the checks, with a length that converts to a float, is
  given a password whose length is exactly the requested \<^verbatim>\<open>length\<close>, whatever the random
  source produces; and whenever a call returns a password at all, it has that length.
\<close>

theorem generate_password_length:
  "(MIN_LENGTH \<le> len \<and> len < float_int_bound \<and>
    (custom_chars = None \<or> custom_chars = Some [] \<longrightarrow>
       use_upper \<or> use_lower \<or> use_digits \<or> use_symbols) \<and>
    (\<forall>cs. custom_chars = Some cs \<and> cs \<noteq> [] \<longrightarrow> 2 \<le> card (set cs)) \<longrightarrow>
    (\<exists>pw bits g'.
       generate_password len use_upper use_lower use_digits use_symbols use_safe custom_chars g =
         (Inr (pw, bits), g') \<and>
       int (length pw) = len)) \<and>
   (\<forall>pw bits g'.
      generate_password len use_upper use_lower use_digits use_symbols use_safe custom_chars g =
        (Inr (pw, bits), g') \<longrightarrow>
      int (length pw) = len)"
proof (intro conjI impI allI)
  assume "MIN_LENGTH \<le> len \<and> len < float_int_bound \<and>
    (custom_chars = None \<or> custom_chars = Some [] \<longrightarrow>
       use_upper \<or> use_lower \<or> use_digits \<or> use_symbols) \<and>
    (\<forall>cs. custom_chars = Some cs \<and> cs \<noteq> [] \<longrightarrow> 2 \<le> card (set cs))"
  then show "\<exists>pw bits g'.
       generate_password len use_upper use_lower use_digits use_symbols use_safe custom_chars g =
         (Inr (pw, bits), g') \<and>
       int (length pw) = len"
    using generate_password_valid [of len custom_chars use_upper use_lower use_digits
        use_symbols use_safe g]
    by blast
next
  fix pw bits g'
  assume r: "generate_password len use_upper use_lower use_digits use_symbols use_safe custom_chars g =
        (Inr (pw, bits), g')"
  obtain pools full_pool where
    "build_pools use_upper use_lower use_digits use_symbols use_safe custom_chars =
       Inr (pools, full_pool)" "full_pool \<noteq> []" "MIN_LENGTH \<le> len" "len < float_int_bound"
    using generate_password_Inr_D [OF r] by blast
  from generate_password_accepted [OF this, of g] r
  show "int (length pw) = len" by auto
qed

theorem generate_password_length_witness:
  "MIN_LENGTH \<le> 8 \<and> 8 < float_int_bound \<and> ''abca'' \<noteq> [] \<and> 2 \<le> card (set ''abca'') \<and>
   generate_password 8 False False False False False (Some ''abca'') g0 =
     (Inr (''abcbacaa'', 8 * log 2 4), g0\<lparr>drawn := 15\<rparr>) \<and>
   int (length ''abcbacaa'') = 8 \<and>
   generate_password 8 False False True False True None g0 =
     (Inr (''17853024'', 8 * log 2 10), g0\<lparr>drawn := 15\<rparr>) \<and>
   int (length ''17853024'') = 8"
proof -
  have h: "2 \<le> card (set ''abca'')"
    by (simp add: card_insert_if)
  from generate_password_length [where len = 8 and custom_chars = "Some ''abca''"
      and use_upper = False and use_lower = False and use_digits = False
      and use_symbols = False and use_safe = False and g = g0, THEN conjunct1]
    small_lengths h
  have "\<exists>pw bits g'. generate_password 8 False False False False False (Some ''abca'') g0 =
      (Inr (pw, bits), g') \<and> int (length pw) = 8"
    by simp
  moreover from generate_password_length [where len = 8 and custom_chars = None
      and use_upper = False and use_lower = False and use_digits = True
      and use_symbols = False and use_safe = True and g = g0, THEN conjunct1]
    small_lengths
  have "\<exists>pw bits g'. generate_password 8 False False True False True None g0 =
      (Inr (pw, bits), g') \<and> int (length pw) = 8"
    by simp
  ultimately show ?thesis
    using run_custom run_digits small_lengths h by simp
qed

text \<open>
  C2. Without a custom pool (\<^verbatim>\<open>custom_chars\<close> is \<^verbatim>\<open>None\<close>, or the empty string, which
  the code treats alike), every request that passes the checks (a category is enabled, the
  length is at least \<open>MIN_LENGTH\<close> and converts to a float) is given a password that
  contains a character of every enabled category: a lowercase letter, an uppercase letter,
  a digit, and a symbol of the symbol pool in force. Whenever such a call returns a
  password at all, the password has that property.
\<close>

theorem generate_password_categories:
  assumes "custom_chars = None \<or> custom_chars = Some []"
  shows
  "(MIN_LENGTH \<le> len \<and> len < float_int_bound \<and>
    (use_upper \<or> use_lower \<or> use_digits \<or> use_symbols) \<longrightarrow>
    (\<exists>pw bits g'.
       generate_password len use_upper use_lower use_digits use_symbols use_safe custom_chars g =
         (Inr (pw, bits), g') \<and>
       (use_lower \<longrightarrow> (\<exists>c \<in> set pw. c \<in> set CHARS_LOWER)) \<and>
       (use_upper \<longrightarrow> (\<exists>c \<in> set pw. c \<in> set CHARS_UPPER)) \<and>
       (use_digits \<longrightarrow> (\<exists>c \<in> set pw. c \<in> set CHARS_DIGITS)) \<and>
       (use_symbols \<longrightarrow>
          (\<exists>c \<in> set pw. c \<in> set (if use_safe then CHARS_SYMBOLS_SAFE else CHARS_SYMBOLS))))) \<and>
   (\<forall>pw bits g'.
      generate_password len use_upper use_lower use_digits use_symbols use_safe custom_chars g =
        (Inr (pw, bits), g') \<longrightarrow>
      (use_lower \<longrightarrow> (\<exists>c \<in> set pw. c \<in> set CHARS_LOWER)) \<and>
      (use_upper \<longrightarrow> (\<exists>c \<in> set pw. c \<in> set CHARS_UPPER)) \<and>
      (use_digits \<longrightarrow> (\<exists>c \<in> set pw. c \<in> set CHARS_DIGITS)) \<and>
      (use_symbols \<longrightarrow>
         (\<exists>c \<in> set pw. c \<in> set (if use_safe then CHARS_SYMBOLS_SAFE else CHARS_SYMBOLS))))"
proof -
  have returned: "(use_lower \<longrightarrow> (\<exists>c \<in> set pw. c \<in> set CHARS_LOWER)) \<and>
      (use_upper \<longrightarrow> (\<exists>c \<in> set pw. c \<in> set CHARS_UPPER)) \<and>
      (use_digits \<longrightarrow> (\<exists>c \<in> set pw. c \<in> set CHARS_DIGITS)) \<and>
      (use_symbols \<longrightarrow>
         (\<exists>c \<in> set pw. c \<in> set (if use_safe then CHARS_SYMBOLS_SAFE else CHARS_SYMBOLS)))"
    if r: "generate_password len use_upper use_lower use_digits use_symbols use_safe custom_chars g =
        (Inr (pw, bits), g')" for pw bits g'
  proof -
    obtain pools full_pool where
      bp: "build_pools use_upper use_lower use_digits use_symbols use_safe custom_chars =
         Inr (pools, full_pool)"
      and ok: "full_pool \<noteq> []" "MIN_LENGTH \<le> len" "len < float_int_bound"
      using generate_password_Inr_D [OF r] by blast
    from generate_password_accepted [OF bp ok, of g] r
    have each: "\<forall>p \<in> set pools. \<exists>c \<in> set pw. c \<in> set p"
      by auto
    have "pools = fst (named_pools use_upper use_lower use_digits use_symbols use_safe)"
      using bp assms by (auto simp: build_pools_def)
    then show ?thesis
      using each by (simp add: named_pools_set)
  qed
  have accepted: "\<exists>pw bits g'.
       generate_password len use_upper use_lower use_digits use_symbols use_safe custom_chars g =
         (Inr (pw, bits), g')"
    if "MIN_LENGTH \<le> len \<and> len < float_int_bound \<and>
      (use_upper \<or> use_lower \<or> use_digits \<or> use_symbols)"
    using that assms
      generate_password_valid [of len custom_chars use_upper use_lower use_digits
        use_symbols use_safe g]
    by auto
  show ?thesis
    using accepted returned by blast
qed

theorem generate_password_categories_witness:
  "MIN_LENGTH \<le> 8 \<and> 8 < float_int_bound \<and>
   generate_password 8 True True True True False None g0 =
     (Inr (''F7MTdK0]'', 8 * log 2 94), g0\<lparr>drawn := 15\<rparr>) \<and>
   CHR ''d'' \<in> set ''F7MTdK0]'' \<and> CHR ''d'' \<in> set CHARS_LOWER \<and>
   CHR ''F'' \<in> set ''F7MTdK0]'' \<and> CHR ''F'' \<in> set CHARS_UPPER \<and>
   CHR ''7'' \<in> set ''F7MTdK0]'' \<and> CHR ''7'' \<in> set CHARS_DIGITS \<and>
   CHR '']'' \<in> set ''F7MTdK0]'' \<and> CHR '']'' \<in> set CHARS_SYMBOLS"
proof -
  from generate_password_categories [where custom_chars = None and len = 8
      and use_upper = True and use_lower = True and use_digits = True
      and use_symbols = True and use_safe = False and g = g0, THEN conjunct1]
    small_lengths
  have "\<exists>pw bits g'. generate_password 8 True True True True False None g0 =
      (Inr (pw, bits), g') \<and>
      (\<exists>c \<in> set pw. c \<in> set CHARS_LOWER) \<and> (\<exists>c \<in> set pw. c \<in> set CHARS_UPPER) \<and>
      (\<exists>c \<in> set pw. c \<in> set CHARS_DIGITS) \<and> (\<exists>c \<in> set pw. c \<in> set CHARS_SYMBOLS)"
    by simp
  then show ?thesis
    using run_all small_lengths
    by (simp add: CHARS_LOWER_def CHARS_UPPER_def CHARS_DIGITS_def CHARS_SYMBOLS_def)
qed

text \<open>
  C3. Every request that passes the checks, with a length that converts to a float, is
  given the entropy \<open>length * log2 (len full_pool)\<close>, where \<^verbatim>\<open>full_pool\<close> is the Universe
  string built from the request, the concatenation of its pools, and its length counts
  every occurrence of a character; whenever a call returns an entropy at all, it is that
  value. With \<open>length = 20\<close> and the 26 lowercase letters the value is \<open>20 * log2 26\<close>,
  between 94 and 94.05. The logarithm is the real one; the rounding of floating point is
  outside the model.
\<close>

theorem generate_password_entropy:
  "(MIN_LENGTH \<le> len \<and> len < float_int_bound \<and>
    (custom_chars = None \<or> custom_chars = Some [] \<longrightarrow>
       use_upper \<or> use_lower \<or> use_digits \<or> use_symbols) \<and>
    (\<forall>cs. custom_chars = Some cs \<and> cs \<noteq> [] \<longrightarrow> 2 \<le> card (set cs)) \<longrightarrow>
    (\<exists>pools full_pool pw g'.
       build_pools use_upper use_lower use_digits use_symbols use_safe custom_chars =
         Inr (pools, full_pool) \<and>
       full_pool = concat pools \<and>
       generate_password len use_upper use_lower use_digits use_symbols use_safe custom_chars g =
         (Inr (pw, real_of_int len * log 2 (real (length full_pool))), g'))) \<and>
   (\<forall>pw bits g'.
      generate_password len use_upper use_lower use_digits use_symbols use_safe custom_chars g =
        (Inr (pw, bits), g') \<longrightarrow>
      (\<exists>pools full_pool.
         build_pools use_upper use_lower use_digits use_symbols use_safe custom_chars =
           Inr (pools, full_pool) \<and>
         full_pool = concat pools \<and>
         bits = real_of_int len * log 2 (real (length full_pool)))) \<and>
   (\<exists>pw g'.
      generate_password 20 False True False False use_safe None g =
        (Inr (pw, 20 * log 2 26), g') \<and>
      \<bar>20 * log 2 26 - 94\<bar> < (1 / 20 :: real))"
proof (intro conjI impI allI)
  assume "MIN_LENGTH \<le> len \<and> len < float_int_bound \<and>
    (custom_chars = None \<or> custom_chars = Some [] \<longrightarrow>
       use_upper \<or> use_lower \<or> use_digits \<or> use_symbols) \<and>
    (\<forall>cs. custom_chars = Some cs \<and> cs \<noteq> [] \<longrightarrow> 2 \<le> card (set cs))"
  then show "\<exists>pools full_pool pw g'.
       build_pools use_upper use_lower use_digits use_symbols use_safe custom_chars =
         Inr (pools, full_pool) \<and>
       full_pool = concat pools \<and>
       generate_password len use_upper use_lower use_digits use_symbols use_safe custom_chars g =
         (Inr (pw, real_of_int len * log 2 (real (length full_pool))), g')"
    using generate_password_valid [of len custom_chars use_upper use_lower use_digits
        use_symbols use_safe g]
    by blast
next
  fix pw bits g'
  assume r: "generate_password len use_upper use_lower use_digits use_symbols use_safe custom_chars g =
        (Inr (pw, bits), g')"
  obtain pools full_pool where
    bp: "build_pools use_upper use_lower use_digits use_symbols use_safe custom_chars =
       Inr (pools, full_pool)"
    and ok: "full_pool \<noteq> []" "MIN_LENGTH \<le> len" "len < float_int_bound"
    using generate_password_Inr_D [OF r] by blast
  from generate_password_accepted [OF bp ok, of g] r
  have "bits = real_of_int len * log 2 (real (length full_pool))"
    by auto
  with bp build_pools_inv(1) [OF bp]
  show "\<exists>pools full_pool.
         build_pools use_upper use_lower use_digits use_symbols use_safe custom_chars =
           Inr (pools, full_pool) \<and>
         full_pool = concat pools \<and>
         bits = real_of_int len * log 2 (real (length full_pool))"
    by blast
next
  have bp: "build_pools False True False False use_safe None =
      Inr ([CHARS_LOWER], CHARS_LOWER)"
    by (simp add: build_pools_def named_pools_def add_pool_def)
  have n: "length CHARS_LOWER = 26" "CHARS_LOWER \<noteq> []"
    by (simp_all add: CHARS_LOWER_def)
  from generate_password_accepted [OF bp n(2) small_lengths(3,4), of g] n(1)
  have "\<exists>pw g'. generate_password 20 False True False False use_safe None g =
      (Inr (pw, 20 * log 2 26), g')"
    by auto
  moreover have "\<bar>20 * log 2 26 - 94\<bar> < (1 / 20 :: real)"
    using log2_26_bounds by simp
  ultimately show "\<exists>pw g'.
      generate_password 20 False True False False use_safe None g =
        (Inr (pw, 20 * log 2 26), g') \<and>
      \<bar>20 * log 2 26 - 94\<bar> < (1 / 20 :: real)"
    by blast
qed

theorem generate_password_entropy_witness:
  "MIN_LENGTH \<le> 20 \<and> 20 < float_int_bound \<and>
   build_pools False True False False False None = Inr ([CHARS_LOWER], CHARS_LOWER) \<and>
   length CHARS_LOWER = 26 \<and>
   generate_password 20 False True False False False None g0 =
     (Inr (''drmjtkeofxhavgzlcqsy'', 20 * log 2 26), g0\<lparr>drawn := 39\<rparr>) \<and>
   \<bar>20 * log 2 26 - 94\<bar> < (1 / 20 :: real)"
proof -
  have bp: "build_pools False True False False False None = Inr ([CHARS_LOWER], CHARS_LOWER)"
    by (simp add: build_pools_def named_pools_def add_pool_def)
  have n: "length CHARS_LOWER = 26"
    by (simp add: CHARS_LOWER_def)
  note e = generate_password_entropy [where len = 20 and custom_chars = None
      and use_upper = False and use_lower = True and use_digits = False
      and use_symbols = False and use_safe = False and g = g0]
  from e [THEN conjunct1] small_lengths bp n
  have "\<exists>pw g'. generate_password 20 False True False False False None g0 =
      (Inr (pw, 20 * log 2 26), g')"
    by simp
  moreover from e [THEN conjunct2, THEN conjunct2]
  have "\<bar>20 * log 2 26 - 94\<bar> < (1 / 20 :: real)"
    by simp
  ultimately show ?thesis
    using run_lower small_lengths bp n by simp
qed

text \<open>
  C4, as amended. The test \<^verbatim>\<open>length < MIN_LENGTH\<close> of line 113 comes before the test
  \<^verbatim>\<open>length < len(pools)\<close> of line 115, and there are never more than four pools, fewer
  than \<open>MIN_LENGTH = 8\<close>. So no request at all fails with \<open>LengthBelowCategoryMinimum\<close>;
  a request that passes the pool checks and whose length is below its number of pools
  fails, before any draw, with \<open>LengthTooShort\<close> (with \<open>NoCategorySelected\<close> when there is
  no pool and the length is negative).
\<close>

theorem short_length_rejected:
  "fst (generate_password len use_upper use_lower use_digits use_symbols use_safe
          custom_chars g) \<noteq> Inl LengthBelowCategoryMinimum \<and>
   (build_pools use_upper use_lower use_digits use_symbols use_safe custom_chars =
      Inr (pools, full_pool) \<and> len < int (length pools) \<longrightarrow>
    generate_password len use_upper use_lower use_digits use_symbols use_safe custom_chars g =
      (Inl (if pools = [] then NoCategorySelected else LengthTooShort), g))"
proof
  let ?r = "generate_password len use_upper use_lower use_digits use_symbols use_safe
      custom_chars g"
  show "fst ?r \<noteq> Inl LengthBelowCategoryMinimum"
  proof
    assume "fst ?r = Inl LengthBelowCategoryMinimum"
    then have "?r = (Inl LengthBelowCategoryMinimum, snd ?r)"
      by (simp add: prod_eq_iff)
    from generate_password_rejected [OF this] show False
      by (auto split: sum.splits prod.splits if_splits dest: build_pools_Inl_D)
  qed
  show "build_pools use_upper use_lower use_digits use_symbols use_safe custom_chars =
      Inr (pools, full_pool) \<and> len < int (length pools) \<longrightarrow>
    ?r = (Inl (if pools = [] then NoCategorySelected else LengthTooShort), g)"
  proof
    assume a: "build_pools use_upper use_lower use_digits use_symbols use_safe custom_chars =
      Inr (pools, full_pool) \<and> len < int (length pools)"
    then have bp: "build_pools use_upper use_lower use_digits use_symbols use_safe
        custom_chars = Inr (pools, full_pool)" and lt: "len < int (length pools)"
      by simp_all
    note inv = build_pools_inv [OF bp]
    have short: "len < MIN_LENGTH"
      using lt inv(3) by (simp add: MIN_LENGTH_def)
    have "full_pool = [] \<longleftrightarrow> pools = []"
      using inv(1,2) by auto
    then show "?r = (Inl (if pools = [] then NoCategorySelected else LengthTooShort), g)"
      using bp short by (simp add: generate_password_def)
  qed
qed

theorem short_length_rejected_witness:
  "build_pools True True True True False None =
     Inr ([CHARS_LOWER, CHARS_UPPER, CHARS_DIGITS, CHARS_SYMBOLS],
          CHARS_LOWER @ CHARS_UPPER @ CHARS_DIGITS @ CHARS_SYMBOLS) \<and>
   (3::int) < int (length [CHARS_LOWER, CHARS_UPPER, CHARS_DIGITS, CHARS_SYMBOLS]) \<and>
   generate_password 3 True True True True False None g0 = (Inl LengthTooShort, g0)"
proof -
  have bp: "build_pools True True True True False None =
     Inr ([CHARS_LOWER, CHARS_UPPER, CHARS_DIGITS, CHARS_SYMBOLS],
          CHARS_LOWER @ CHARS_UPPER @ CHARS_DIGITS @ CHARS_SYMBOLS)"
    by (simp add: build_pools_def named_pools_def add_pool_def)
  have lt: "(3::int) < int (length [CHARS_LOWER, CHARS_UPPER, CHARS_DIGITS, CHARS_SYMBOLS])"
    by simp
  from short_length_rejected
    [of 3 True True True True False None g0
        "[CHARS_LOWER, CHARS_UPPER, CHARS_DIGITS, CHARS_SYMBOLS]"
        "CHARS_LOWER @ CHARS_UPPER @ CHARS_DIGITS @ CHARS_SYMBOLS"] bp lt
  have "generate_password 3 True True True True False None g0 = (Inl LengthTooShort, g0)"
    by simp
  with bp lt show ?thesis
    by simp
qed

text \<open>
  The claim as written fails: four categories and \<open>length = 3\<close> give \<open>LengthTooShort\<close>.
\<close>

theorem length_below_categories_counterexample:
  "build_pools True True True True False None =
     Inr ([CHARS_LOWER, CHARS_UPPER, CHARS_DIGITS, CHARS_SYMBOLS],
          CHARS_LOWER @ CHARS_UPPER @ CHARS_DIGITS @ CHARS_SYMBOLS) \<and>
   (3::int) < int (length [CHARS_LOWER, CHARS_UPPER, CHARS_DIGITS, CHARS_SYMBOLS]) \<and>
   fst (generate_password 3 True True True True False None g0) \<noteq>
     Inl LengthBelowCategoryMinimum"
  by (simp add: generate_password_def build_pools_def named_pools_def add_pool_def
      MIN_LENGTH_def CHARS_LOWER_def)

text \<open>
  C5, as amended. The test \<^verbatim>\<open>if custom_chars:\<close> of line 91 is false for the empty string,
  so an empty custom pool is no custom pool: the call behaves as with \<^verbatim>\<open>None\<close>. A
  non-empty custom pool with fewer than two different characters makes the call fail with
  \<open>InvalidPool\<close>, before any draw and whatever the other arguments are.
\<close>

theorem generate_password_invalid_pool:
  "(cs \<noteq> [] \<and> card (set cs) < 2 \<longrightarrow>
      generate_password len use_upper use_lower use_digits use_symbols use_safe (Some cs) g =
        (Inl InvalidPool, g)) \<and>
   generate_password len use_upper use_lower use_digits use_symbols use_safe (Some []) g =
     generate_password len use_upper use_lower use_digits use_symbols use_safe None g"
  by (simp add: generate_password_def build_pools_def)

theorem generate_password_invalid_pool_witness:
  "''aaa'' \<noteq> [] \<and> card (set ''aaa'') < 2 \<and>
   generate_password 20 True True True True False (Some ''aaa'') g0 = (Inl InvalidPool, g0)"
  using generate_password_invalid_pool [of "''aaa''" 20 True True True True False g0]
  by simp

text \<open>
  The claim as written fails on the empty pool: it has no character at all, and the call
  returns a password of lowercase letters.
\<close>

theorem invalid_pool_counterexample:
  "card (set ('''' :: string)) < 2 \<and>
   generate_password 8 False True False False False (Some '''') g0 =
     (Inr (''frmtdkay'', 8 * log 2 26), g0\<lparr>drawn := 15\<rparr>) \<and>
   fst (generate_password 8 False True False False False (Some '''') g0) \<noteq> Inl InvalidPool"
  using run_empty_custom by simp

text \<open>
  C6. A call that fails with a validation error (any failure but the \<^verbatim>\<open>RuntimeError\<close>
  of the \<^verbatim>\<open>try\<close> block) has failed before the first draw: the random source is returned
  as it was received, no index has been drawn, the result carries no password, and the error
  is one of the three that can be reached. When the length converts to a float, as every
  length up to \<open>MAX_LENGTH\<close> does, the \<^verbatim>\<open>RuntimeError\<close> never occurs, so every failure is
  such a validation failure.
\<close>

theorem generate_password_validates_first:
  assumes "generate_password len use_upper use_lower use_digits use_symbols use_safe custom_chars g = (Inl e, g')"
  shows "(e \<noteq> InternalError \<longrightarrow>
            g' = g \<and> drawn g' = drawn g \<and>
            e \<in> {InvalidPool, NoCategorySelected, LengthTooShort}) \<and>
         (len < float_int_bound \<longrightarrow> e \<noteq> InternalError)"
proof -
  have valid: "g' = g \<and> e \<in> {InvalidPool, NoCategorySelected, LengthTooShort}"
    if "e \<noteq> InternalError \<or> len < float_int_bound"
  proof -
    note r = generate_password_rejected [OF assms that]
    then have "g' = g" by simp
    moreover have "e \<in> {InvalidPool, NoCategorySelected, LengthTooShort}"
      using r by (auto split: sum.splits prod.splits if_splits dest: build_pools_Inl_D)
    ultimately show ?thesis by simp
  qed
  then show ?thesis
    by auto
qed

theorem generate_password_validates_first_witness:
  "generate_password 3 True True True True False None g0 = (Inl LengthTooShort, g0) \<and>
   LengthTooShort \<noteq> InternalError \<and> 3 < float_int_bound \<and>
   drawn g0 = 0 \<and> LengthTooShort \<in> {InvalidPool, NoCategorySelected, LengthTooShort}"
proof -
  have "(3::int) < float_int_bound"
    using small_lengths(2) by simp
  then show ?thesis
    using generate_password_validates_first [OF run_short] run_short
    by (simp add: g0_def)
qed

text \<open>
  C7. Without a custom pool (\<^verbatim>\<open>None\<close> or the empty string) the Universe
  \<^verbatim>\<open>full_pool\<close> is the concatenation, in the order lowercase, uppercase, digits, symbols,
  of the pools of the enabled categories, and \<^verbatim>\<open>pools\<close> lists them in that order; the
  symbol pool is \<^verbatim>\<open>CHARS_SYMBOLS_SAFE\<close>, the exact string of the specification, in safe
  mode and \<^verbatim>\<open>CHARS_SYMBOLS\<close>, the ASCII punctuation characters (codes 33-47, 58-64,
  91-96, 123-126), otherwise. Every non-empty custom pool with at least two different
  characters is accepted, and the Universe is then that string itself, unchanged, and it is
  the only pool, whatever the category flags are.
\<close>

theorem build_pools_universe:
  "(custom_chars = None \<or> custom_chars = Some [] \<longrightarrow>
      build_pools use_upper use_lower use_digits use_symbols use_safe custom_chars =
        Inr ((if use_lower then [CHARS_LOWER] else []) @
             (if use_upper then [CHARS_UPPER] else []) @
             (if use_digits then [CHARS_DIGITS] else []) @
             (if use_symbols
              then [if use_safe then CHARS_SYMBOLS_SAFE else CHARS_SYMBOLS] else []),
             (if use_lower then CHARS_LOWER else []) @
             (if use_upper then CHARS_UPPER else []) @
             (if use_digits then CHARS_DIGITS else []) @
             (if use_symbols
              then (if use_safe then CHARS_SYMBOLS_SAFE else CHARS_SYMBOLS) else []))) \<and>
   CHARS_SYMBOLS_SAFE = ''!#%&()*+,-./:;=?@[]^{}~_'' \<and>
   map of_char CHARS_SYMBOLS = ([33..<48] @ [58..<65] @ [91..<97] @ [123..<127] :: nat list) \<and>
   (cs \<noteq> [] \<and> 2 \<le> card (set cs) \<longrightarrow>
      build_pools use_upper use_lower use_digits use_symbols use_safe (Some cs) =
        Inr ([cs], cs)) \<and>
   (custom_chars = Some cs \<and> cs \<noteq> [] \<and>
    build_pools use_upper use_lower use_digits use_symbols use_safe custom_chars =
      Inr (pools, full_pool) \<longrightarrow> pools = [cs] \<and> full_pool = cs)"
proof -
  have named: "named_pools use_upper use_lower use_digits use_symbols use_safe =
      ((if use_lower then [CHARS_LOWER] else []) @
       (if use_upper then [CHARS_UPPER] else []) @
       (if use_digits then [CHARS_DIGITS] else []) @
       (if use_symbols then [if use_safe then CHARS_SYMBOLS_SAFE else CHARS_SYMBOLS] else []),
       (if use_lower then CHARS_LOWER else []) @
       (if use_upper then CHARS_UPPER else []) @
       (if use_digits then CHARS_DIGITS else []) @
       (if use_symbols then (if use_safe then CHARS_SYMBOLS_SAFE else CHARS_SYMBOLS) else []))"
    by (simp add: named_pools_def add_pool_def)
  have custom: "pools = [cs] \<and> full_pool = cs"
    if "custom_chars = Some cs \<and> cs \<noteq> [] \<and>
      build_pools use_upper use_lower use_digits use_symbols use_safe custom_chars =
        Inr (pools, full_pool)"
    using that by (auto simp: build_pools_def split: if_splits)
  have accepted: "build_pools use_upper use_lower use_digits use_symbols use_safe (Some cs) =
        Inr ([cs], cs)" if "cs \<noteq> [] \<and> 2 \<le> card (set cs)"
    using that by (simp add: build_pools_def)
  show ?thesis
    using named custom accepted CHARS_SYMBOLS_codes
    by (auto simp: build_pools_def CHARS_SYMBOLS_SAFE_def)
qed

theorem build_pools_universe_witness:
  "build_pools True True True True True None =
     Inr ([CHARS_LOWER, CHARS_UPPER, CHARS_DIGITS, CHARS_SYMBOLS_SAFE],
          CHARS_LOWER @ CHARS_UPPER @ CHARS_DIGITS @ CHARS_SYMBOLS_SAFE) \<and>
   ''abca'' \<noteq> [] \<and> 2 \<le> card (set ''abca'') \<and>
   build_pools True True True True True (Some ''abca'') = Inr ([''abca''], ''abca'')"
proof -
  have h: "2 \<le> card (set ''abca'')"
    by (simp add: card_insert_if)
  note named = build_pools_universe [where custom_chars = None and use_upper = True
      and use_lower = True and use_digits = True and use_symbols = True and use_safe = True,
      THEN conjunct1]
  note custom = build_pools_universe [where cs = "''abca''" and use_upper = True
      and use_lower = True and use_digits = True and use_symbols = True and use_safe = True,
      THEN conjunct2, THEN conjunct2, THEN conjunct2, THEN conjunct1]
  from named have "build_pools True True True True True None =
     Inr ([CHARS_LOWER, CHARS_UPPER, CHARS_DIGITS, CHARS_SYMBOLS_SAFE],
          CHARS_LOWER @ CHARS_UPPER @ CHARS_DIGITS @ CHARS_SYMBOLS_SAFE)"
    by simp
  moreover from custom h
  have "build_pools True True True True True (Some ''abca'') = Inr ([''abca''], ''abca'')"
    by simp
  ultimately show ?thesis
    using h by simp
qed

text \<open>
  C8. With no named category enabled and no custom pool (\<^verbatim>\<open>None\<close>, and likewise the
  empty string), the call fails with \<open>NoCategorySelected\<close>, whatever the length and the
  safe flag are, and draws nothing.
\<close>

theorem generate_password_no_category:
  "generate_password len False False False False use_safe None g =
     (Inl NoCategorySelected, g) \<and>
   generate_password len False False False False use_safe (Some []) g =
     (Inl NoCategorySelected, g)"
  by (simp add: generate_password_def build_pools_def named_pools_def add_pool_def)

theorem generate_password_no_category_witness:
  "generate_password 20 False False False False True None g0 = (Inl NoCategorySelected, g0)"
  using generate_password_no_category [where len = 20 and use_safe = True and g = g0] by simp

text \<open>
  C9. For every request that passes the checks, with a length that converts to a float,
  two calls with the same arguments and any two random sources both return, with passwords
  of the same length and the very same entropy. More generally, if one call returns a
  password and an entropy, the same arguments with any other random source return a
  password of the same length and the same entropy.
\<close>

theorem generate_password_same_shape:
  "(MIN_LENGTH \<le> len \<and> len < float_int_bound \<and>
    (custom_chars = None \<or> custom_chars = Some [] \<longrightarrow>
       use_upper \<or> use_lower \<or> use_digits \<or> use_symbols) \<and>
    (\<forall>cs. custom_chars = Some cs \<and> cs \<noteq> [] \<longrightarrow> 2 \<le> card (set cs)) \<longrightarrow>
    (\<exists>pw1 pw2 bits ga gb.
       generate_password len use_upper use_lower use_digits use_symbols use_safe custom_chars g =
         (Inr (pw1, bits), ga) \<and>
       generate_password len use_upper use_lower use_digits use_symbols use_safe custom_chars h =
         (Inr (pw2, bits), gb) \<and>
       length pw1 = length pw2)) \<and>
   (\<forall>pw1 bits ga.
      generate_password len use_upper use_lower use_digits use_symbols use_safe custom_chars g =
        (Inr (pw1, bits), ga) \<longrightarrow>
      (\<exists>pw2 gb.
         generate_password len use_upper use_lower use_digits use_symbols use_safe custom_chars h =
           (Inr (pw2, bits), gb) \<and>
         length pw2 = length pw1))"
proof -
  have both: "\<exists>pw1 pw2 ga gb.
       generate_password len use_upper use_lower use_digits use_symbols use_safe custom_chars g =
         (Inr (pw1, real_of_int len * log 2 (real (length full_pool))), ga) \<and>
       generate_password len use_upper use_lower use_digits use_symbols use_safe custom_chars h =
         (Inr (pw2, real_of_int len * log 2 (real (length full_pool))), gb) \<and>
       int (length pw1) = len \<and> int (length pw2) = len"
    if "build_pools use_upper use_lower use_digits use_symbols use_safe custom_chars =
       Inr (pools, full_pool)" "full_pool \<noteq> []" "MIN_LENGTH \<le> len" "len < float_int_bound"
    for pools full_pool
    using generate_password_accepted [OF that, of g]
      generate_password_accepted [OF that, of h]
    by blast
  have first: "\<exists>pw1 pw2 bits ga gb.
       generate_password len use_upper use_lower use_digits use_symbols use_safe custom_chars g =
         (Inr (pw1, bits), ga) \<and>
       generate_password len use_upper use_lower use_digits use_symbols use_safe custom_chars h =
         (Inr (pw2, bits), gb) \<and>
       length pw1 = length pw2"
    if v: "MIN_LENGTH \<le> len \<and> len < float_int_bound \<and>
    (custom_chars = None \<or> custom_chars = Some [] \<longrightarrow>
       use_upper \<or> use_lower \<or> use_digits \<or> use_symbols) \<and>
    (\<forall>cs. custom_chars = Some cs \<and> cs \<noteq> [] \<longrightarrow> 2 \<le> card (set cs))"
  proof -
    obtain pools full_pool where
      "build_pools use_upper use_lower use_digits use_symbols use_safe custom_chars =
         Inr (pools, full_pool)" "full_pool \<noteq> []"
      using v build_pools_passes [of custom_chars use_upper use_lower use_digits use_symbols
          use_safe]
      by blast
    from both [OF this] v obtain pw1 pw2 ga gb where
      r: "generate_password len use_upper use_lower use_digits use_symbols use_safe custom_chars g =
         (Inr (pw1, real_of_int len * log 2 (real (length full_pool))), ga)"
      "generate_password len use_upper use_lower use_digits use_symbols use_safe custom_chars h =
         (Inr (pw2, real_of_int len * log 2 (real (length full_pool))), gb)"
      and l: "int (length pw1) = len" "int (length pw2) = len"
      by blast
    from l have "length pw1 = length pw2"
      by linarith
    with r show ?thesis
      by blast
  qed
  have second: "\<exists>pw2 gb.
         generate_password len use_upper use_lower use_digits use_symbols use_safe custom_chars h =
           (Inr (pw2, bits), gb) \<and>
         length pw2 = length pw1"
    if r: "generate_password len use_upper use_lower use_digits use_symbols use_safe custom_chars g =
        (Inr (pw1, bits), ga)" for pw1 bits ga
  proof -
    obtain pools full_pool where
      a: "build_pools use_upper use_lower use_digits use_symbols use_safe custom_chars =
         Inr (pools, full_pool)" "full_pool \<noteq> []" "MIN_LENGTH \<le> len" "len < float_int_bound"
      using generate_password_Inr_D [OF r] by blast
    from both [OF a] r obtain pw2 gb where
      "generate_password len use_upper use_lower use_digits use_symbols use_safe custom_chars h =
         (Inr (pw2, bits), gb)" "int (length pw1) = len" "int (length pw2) = len"
      by auto
    then show ?thesis
      by (intro exI [of _ pw2] exI [of _ gb]) auto
  qed
  show ?thesis
    using first second by blast
qed

theorem generate_password_same_shape_witness:
  "MIN_LENGTH \<le> 8 \<and> 8 < float_int_bound \<and>
   generate_password 8 False False True False True None g0 =
     (Inr (''17853024'', 8 * log 2 10), g0\<lparr>drawn := 15\<rparr>) \<and>
   generate_password 8 False False True False True None g1 =
     (Inr (''14516490'', 8 * log 2 10), g1\<lparr>drawn := 15\<rparr>) \<and>
   length ''14516490'' = length ''17853024''"
proof -
  from generate_password_same_shape [where len = 8 and custom_chars = None
      and use_upper = False and use_lower = False and use_digits = True
      and use_symbols = False and use_safe = True and g = g0 and h = g1,
      THEN conjunct1]
    small_lengths
  have "\<exists>pw1 pw2 bits ga gb.
      generate_password 8 False False True False True None g0 = (Inr (pw1, bits), ga) \<and>
      generate_password 8 False False True False True None g1 = (Inr (pw2, bits), gb) \<and>
      length pw1 = length pw2"
    by simp
  then show ?thesis
    using run_digits run_digits_other small_lengths by simp
qed

text \<open>
  C10, as amended. \<^verbatim>\<open>calculate_entropy\<close> returns 0 whenever \<^verbatim>\<open>pool_size\<close> or
  \<^verbatim>\<open>length\<close> is 0, without calling \<^verbatim>\<open>math.log2\<close>; for a positive pool size and a
  length other than 0 that converts to a float, \<^verbatim>\<open>math.log2\<close> is defined and the result is
  \<open>length * log2 pool_size\<close>. So it returns for every pool size that is not negative and
  every length that converts to a float. It is not total: with a length other than 0, a
  negative pool size raises \<^verbatim>\<open>ValueError\<close> (the guard tests only for 0, and the logarithm
  is applied to the negative number), and a positive pool size with a length of magnitude
  \<open>2 ^ 1024 - 2 ^ 970\<close> or more raises \<^verbatim>\<open>OverflowError\<close>.
\<close>

theorem calculate_entropy_cases:
  "(pool_size = 0 \<or> len = 0 \<longrightarrow> calculate_entropy pool_size len = Inr 0) \<and>
   (0 < pool_size \<and> len \<noteq> 0 \<and> \<bar>len\<bar> < float_int_bound \<longrightarrow>
      log2 pool_size = Inr (log 2 (real_of_int pool_size)) \<and>
      calculate_entropy pool_size len =
        Inr (real_of_int len * log 2 (real_of_int pool_size))) \<and>
   (0 \<le> pool_size \<and> \<bar>len\<bar> < float_int_bound \<longrightarrow>
      (\<exists>bits. calculate_entropy pool_size len = Inr bits)) \<and>
   (pool_size < 0 \<and> len \<noteq> 0 \<longrightarrow> calculate_entropy pool_size len = Inl ValueError) \<and>
   (0 < pool_size \<and> float_int_bound \<le> \<bar>len\<bar> \<longrightarrow>
      calculate_entropy pool_size len = Inl OverflowError)"
proof -
  have "calculate_entropy pool_size len = Inl OverflowError"
    if "0 < pool_size \<and> float_int_bound \<le> \<bar>len\<bar>"
    using that calculate_entropy_overflow by simp
  moreover have "\<exists>bits. calculate_entropy pool_size len = Inr bits"
    if "0 \<le> pool_size \<and> \<bar>len\<bar> < float_int_bound"
    using that by (simp add: calculate_entropy_def log2_def float_of_int_def)
  moreover have "calculate_entropy pool_size len = Inl ValueError"
    if "pool_size < 0 \<and> len \<noteq> 0"
    using that by (simp add: calculate_entropy_def log2_def)
  ultimately show ?thesis
    by (simp add: calculate_entropy_def log2_def float_of_int_def)
qed

theorem calculate_entropy_cases_witness:
  "calculate_entropy 0 20 = Inr 0 \<and> calculate_entropy 26 0 = Inr 0 \<and>
   \<bar>20\<bar> < float_int_bound \<and>
   calculate_entropy 26 20 = Inr (20 * log 2 26) \<and>
   calculate_entropy (- 1) 5 = Inl ValueError \<and>
   float_int_bound \<le> \<bar>float_int_bound\<bar> \<and>
   calculate_entropy 26 float_int_bound = Inl OverflowError"
proof -
  have pos: "0 < float_int_bound"
    using small_lengths(2) by simp
  have r: "\<bar>20\<bar> < float_int_bound"
    using small_lengths(4) by simp
  from calculate_entropy_cases [where pool_size = 26 and len = float_int_bound] pos
  have "calculate_entropy 26 float_int_bound = Inl OverflowError"
    by simp
  moreover from calculate_entropy_cases [where pool_size = 26 and len = 20] r
  have "calculate_entropy 26 20 = Inr (20 * log 2 26)"
    by simp
  ultimately show ?thesis
    using calculate_entropy_cases [where pool_size = 0 and len = 20]
      calculate_entropy_cases [where pool_size = 26 and len = 0]
      calculate_entropy_cases [where pool_size = "- 1" and len = 5] pos r
    by simp
qed

text \<open>
  The claim as written fails: a pool size of \<open>-1\<close> with length 5 reaches the logarithm
  and raises, and so does the conversion of the length \<open>2 ^ 1024\<close>.
\<close>

theorem calculate_entropy_total_counterexample:
  "calculate_entropy (- 1) 5 = Inl ValueError \<and>
   calculate_entropy 26 (2 ^ 1024) = Inl OverflowError"
proof -
  have "float_int_bound \<le> \<bar>(2::int) ^ 1024\<bar>"
    by (simp add: float_int_bound_def)
  then have "calculate_entropy 26 (2 ^ 1024) = Inl OverflowError"
    by (intro calculate_entropy_overflow) simp_all
  moreover have "calculate_entropy (- 1) 5 = Inl ValueError"
    by (simp add: calculate_entropy_def log2_def)
  ultimately show ?thesis by simp
qed

end
